theory Spec2Isabelle
  imports Complex_Main
begin

section \<open>JavaScript numbers and strings\<close>

text \<open>
  The hook \<^verbatim>\<open>useProduct\<close> (src/hooks/useProduct.ts) converts the route parameter with
  \<^verbatim>\<open>Number(productId)\<close>, tests the result with \<^verbatim>\<open>!!id\<close>, and the info panel prints a price
  with \<^verbatim>\<open>price.toFixed(2)\<close>. These three operations of the language are written out here
  after ECMA-262 (StringToNumber, ToBoolean, Number.prototype.toFixed). A number is NaN, an
  infinity, or a finite binary64 value held as the rational it denotes; the two zeros are
  one value \<open>Fin 0\<close> (both are falsy, and both print as 0). Strings are lists of 8-bit
  code units, U+0000 to U+00FF; of the white space that StringToNumber strips, those are
  TAB, LF, VT, FF, CR, SP and the no-break space U+00A0.
\<close>

datatype jsnum = NaN | PosInf | NegInf | Fin rat

text \<open>ToBoolean on a number, the \<^verbatim>\<open>!!id\<close> of the hook: false exactly for 0 and NaN.\<close>

fun truthy :: "jsnum \<Rightarrow> bool" where
  "truthy NaN = False"
| "truthy PosInf = True"
| "truthy NegInf = True"
| "truthy (Fin q) = (q \<noteq> 0)"

subsection \<open>Rounding a real to binary64 (roundTiesToEven)\<close>

fun bitlen :: "nat \<Rightarrow> nat" where
  "bitlen n = (if n = 0 then 0 else Suc (bitlen (n div 2)))"

declare bitlen.simps [simp del]

definition pow2 :: "int \<Rightarrow> rat" where
  "pow2 e = (if 0 \<le> e then 2 ^ nat e else 1 / 2 ^ nat (- e))"

text \<open>For \<open>0 < q\<close>, the exponent \<open>e\<close> with \<open>2 ^ e \<le> q < 2 ^ (e + 1)\<close>.\<close>

definition floor_log2 :: "rat \<Rightarrow> int" where
  "floor_log2 q =
     (if 1 \<le> q then int (bitlen (nat \<lfloor>q\<rfloor>)) - 1
      else - int (bitlen (nat \<lceil>1 / q\<rceil> - 1)))"

definition round_half_even :: "rat \<Rightarrow> int" where
  "round_half_even x =
     (let f = \<lfloor>x\<rfloor>; d = x - of_int f
      in if d < 1 / 2 then f
         else if 1 / 2 < d then f + 1
         else if even f then f else f + 1)"

text \<open>
  The binary64 value nearest to a rational: 53 significant bits, exponents from -1022
  (below which the spacing stays \<open>2 ^ -1074\<close>) to 1023, and an infinity from \<open>2 ^ 1024\<close> on.
\<close>

definition to_double :: "rat \<Rightarrow> jsnum" where
  "to_double q =
     (if q = 0 then Fin 0
      else let a = \<bar>q\<bar>;
               e = max (floor_log2 a) (- 1022);
               ulp = pow2 (e - 52);
               r = of_int (round_half_even (a / ulp)) * ulp
           in if 2 ^ 1024 \<le> r then (if q < 0 then NegInf else PosInf)
              else Fin (if q < 0 then - r else r))"

subsection \<open>StringToNumber\<close>

definition digit_value :: "char \<Rightarrow> nat option" where
  "digit_value c =
     (let n = of_char c :: nat
      in if 48 \<le> n \<and> n \<le> 57 then Some (n - 48)
         else if 97 \<le> n \<and> n \<le> 122 then Some (n - 87)
         else if 65 \<le> n \<and> n \<le> 90 then Some (n - 55)
         else None)"

definition is_digit_in :: "nat \<Rightarrow> char \<Rightarrow> bool" where
  "is_digit_in b c = (case digit_value c of Some d \<Rightarrow> d < b | None \<Rightarrow> False)"

definition digits_value :: "nat \<Rightarrow> string \<Rightarrow> nat" where
  "digits_value b ds =
     foldl (\<lambda>a c. a * b + (case digit_value c of Some d \<Rightarrow> d | None \<Rightarrow> 0)) 0 ds"

definition all_digits :: "string \<Rightarrow> bool" where
  "all_digits ds = (ds \<noteq> [] \<and> list_all (is_digit_in 10) ds)"

definition is_ws :: "char \<Rightarrow> bool" where
  "is_ws c = (let n = of_char c :: nat in (9 \<le> n \<and> n \<le> 13) \<or> n = 32 \<or> n = 160)"

definition trim :: "string \<Rightarrow> string" where
  "trim s = rev (dropWhile is_ws (rev (dropWhile is_ws s)))"

definition pow10 :: "int \<Rightarrow> rat" where
  "pow10 e = (if 0 \<le> e then 10 ^ nat e else 1 / 10 ^ nat (- e))"

text \<open>SignedInteger: decimal digits with an optional sign.\<close>

definition signed_integer :: "string \<Rightarrow> int option" where
  "signed_integer s =
     (case s of
        [] \<Rightarrow> None
      | c # ds \<Rightarrow>
          if c = CHR ''+'' then (if all_digits ds then Some (int (digits_value 10 ds)) else None)
          else if c = CHR ''-'' then (if all_digits ds then Some (- int (digits_value 10 ds)) else None)
          else if all_digits s then Some (int (digits_value 10 s)) else None)"

text \<open>An optional ExponentPart that must reach the end of the literal.\<close>

definition exponent_part :: "string \<Rightarrow> int option" where
  "exponent_part s =
     (case s of
        [] \<Rightarrow> Some 0
      | c # r \<Rightarrow> if c = CHR ''e'' \<or> c = CHR ''E'' then signed_integer r else None)"

datatype literal = NotNumeric | Infinity | MV rat

text \<open>
  StrUnsignedDecimalLiteral: \<^verbatim>\<open>Infinity\<close>, or digits with an optional fraction and exponent,
  with at least one digit before or after the point. \<open>MV\<close> is the exact mathematical value.
\<close>

definition StrUnsignedDecimalLiteral :: "string \<Rightarrow> literal" where
  "StrUnsignedDecimalLiteral s =
     (if s = ''Infinity'' then Infinity
      else let ip = takeWhile (is_digit_in 10) s;
               r = dropWhile (is_digit_in 10) s;
               dot = (case r of [] \<Rightarrow> False | c # _ \<Rightarrow> c = CHR ''.'');
               fp = (if dot then takeWhile (is_digit_in 10) (tl r) else []);
               r' = (if dot then dropWhile (is_digit_in 10) (tl r) else r)
           in if ip = [] \<and> fp = [] then NotNumeric
              else case exponent_part r' of
                     None \<Rightarrow> NotNumeric
                   | Some e \<Rightarrow>
                       MV (of_nat (digits_value 10 (ip @ fp)) * pow10 (e - int (length fp))))"

fun number_of :: "literal \<Rightarrow> jsnum" where
  "number_of NotNumeric = NaN"
| "number_of Infinity = PosInf"
| "number_of (MV q) = to_double q"

fun negate :: "jsnum \<Rightarrow> jsnum" where
  "negate NaN = NaN"
| "negate PosInf = NegInf"
| "negate NegInf = PosInf"
| "negate (Fin q) = Fin (- q)"

definition StrDecimalLiteral :: "string \<Rightarrow> jsnum" where
  "StrDecimalLiteral s =
     (case s of
        [] \<Rightarrow> NaN
      | c # t \<Rightarrow>
          if c = CHR ''-'' then negate (number_of (StrUnsignedDecimalLiteral t))
          else if c = CHR ''+'' then number_of (StrUnsignedDecimalLiteral t)
          else number_of (StrUnsignedDecimalLiteral s))"

text \<open>The radix announced by a \<^verbatim>\<open>0x\<close>, \<^verbatim>\<open>0o\<close> or \<^verbatim>\<open>0b\<close> prefix (either case).\<close>

definition radix_prefix :: "string \<Rightarrow> nat option" where
  "radix_prefix s =
     (case s of
        c0 # c1 # _ \<Rightarrow>
          if c0 \<noteq> CHR ''0'' then None
          else if c1 = CHR ''x'' \<or> c1 = CHR ''X'' then Some 16
          else if c1 = CHR ''o'' \<or> c1 = CHR ''O'' then Some 8
          else if c1 = CHR ''b'' \<or> c1 = CHR ''B'' then Some 2
          else None
      | _ \<Rightarrow> None)"

text \<open>
  \<^verbatim>\<open>Number(str)\<close> on a string: white space is stripped from both ends, the empty string
  is 0, a prefixed literal is read in its radix (no sign allowed), anything else must be
  one StrDecimalLiteral; a string of no such form is NaN.
\<close>

definition Number :: "string \<Rightarrow> jsnum" where
  "Number str =
     (let s = trim str
      in if s = [] then Fin 0
         else case radix_prefix s of
                Some b \<Rightarrow>
                  (let ds = drop 2 s
                   in if ds \<noteq> [] \<and> list_all (is_digit_in b) ds
                      then to_double (of_nat (digits_value b ds))
                      else NaN)
              | None \<Rightarrow> StrDecimalLiteral s)"

text \<open>\<^verbatim>\<open>Number.isInteger\<close>: a finite number with no fractional part.\<close>

definition isInteger :: "jsnum \<Rightarrow> bool" where
  "isInteger x = (case x of Fin q \<Rightarrow> of_int \<lfloor>q\<rfloor> = q | _ \<Rightarrow> False)"

subsection \<open>Number.prototype.toFixed\<close>

definition digit_char :: "nat \<Rightarrow> char" where
  "digit_char d = char_of (48 + d)"

text \<open>The digits of the decimal representation of a natural number, \<open>0\<close> being \<^verbatim>\<open>0\<close>.\<close>

fun digits :: "nat \<Rightarrow> string" where
  "digits n = (if n < 10 then [digit_char n] else digits (n div 10) @ [digit_char (n mod 10)])"

declare digits.simps [simp del]

text \<open>
  Number::toString for a finite \<open>x\<close> with \<open>10 ^ 21 \<le> x\<close>, the only range in which
  toFixed hands over to it: the shortest digit string \<open>s\<close> (of \<open>k\<close> digits) with
  \<open>s * 10 ^ (n - k)\<close> rounding to \<open>x\<close>, the closest such \<open>s\<close> where several exist, printed in
  exponent notation. Seventeen digits always suffice for a binary64 value.
\<close>

definition shortest_candidates :: "rat \<Rightarrow> nat \<Rightarrow> (nat \<times> nat) list" where
  "shortest_candidates x k =
     (let n0 = length (digits (nat \<lfloor>x\<rfloor>))
      in [(n, s). n \<leftarrow> [n0, n0 + 1],
                  s \<leftarrow> [nat \<lfloor>x / 10 ^ (n - k)\<rfloor>, nat \<lfloor>x / 10 ^ (n - k)\<rfloor> + 1],
                  10 ^ (k - 1) \<le> s \<and> s < 10 ^ k \<and> to_double (of_nat s * 10 ^ (n - k)) = Fin x])"

definition closer :: "rat \<Rightarrow> nat \<Rightarrow> (nat \<times> nat) \<Rightarrow> (nat \<times> nat) \<Rightarrow> (nat \<times> nat)" where
  "closer x k a b =
     (let da = \<bar>of_nat (snd a) * 10 ^ (fst a - k) - x\<bar>;
          db = \<bar>of_nat (snd b) * 10 ^ (fst b - k) - x\<bar>
      in if db < da \<or> (db = da \<and> odd (snd a) \<and> even (snd b)) then b else a)"

fun shortest :: "rat \<Rightarrow> nat list \<Rightarrow> (nat \<times> nat) option" where
  "shortest x [] = None"
| "shortest x (k # ks) =
     (case shortest_candidates x k of
        [] \<Rightarrow> shortest x ks
      | c # cs \<Rightarrow> Some (foldl (closer x k) c cs))"

definition toString_exp :: "rat \<Rightarrow> string" where
  "toString_exp x =
     (case shortest x [1..<18] of
        None \<Rightarrow> []
      | Some (n, s) \<Rightarrow>
          (let m = digits s
           in (if length m = 1 then m else hd m # CHR ''.'' # tl m) @ ''e+'' @ digits (n - 1)))"

text \<open>
  \<^verbatim>\<open>x.toFixed(f)\<close> after ECMA-262: a number that is not finite prints as its name; a
  magnitude from \<open>10 ^ 21\<close> on prints as ToString does; otherwise \<open>n\<close> is the integer with
  \<open>n / 10 ^ f\<close> nearest to the magnitude (the larger of two), printed with a point before its
  last \<open>f\<close> digits and padded with zeros to have a digit before the point. The RangeError
  for \<open>f\<close> above 100 cannot occur at the one call of the source, \<^verbatim>\<open>toFixed(2)\<close>.
\<close>

definition toFixed :: "nat \<Rightarrow> jsnum \<Rightarrow> string" where
  "toFixed f x =
     (case x of
        NaN \<Rightarrow> ''NaN''
      | PosInf \<Rightarrow> ''Infinity''
      | NegInf \<Rightarrow> ''-Infinity''
      | Fin q \<Rightarrow>
          (let s = (if q < 0 then ''-'' else []);
               a = \<bar>q\<bar>
           in if 10 ^ 21 \<le> a then s @ toString_exp a
              else let n = nat \<lfloor>a * 10 ^ f + 1 / 2\<rfloor>;
                       m = digits n;
                       z = (if length m \<le> f then replicate (f + 1 - length m) CHR ''0'' @ m else m)
                   in if f = 0 then s @ m
                      else s @ take (length z - f) z @ ''.'' @ drop (length z - f) z))"

section \<open>Entity types\<close>

text \<open>
  The interface \<^verbatim>\<open>Product\<close> (types/product.ts); \<^verbatim>\<open>id\<close> is spelt \<open>id'\<close> here, and the
  optional \<^verbatim>\<open>brand\<close> is an option. An \<^verbatim>\<open>Error\<close> is known by its message.
\<close>

record Product =
  id' :: jsnum
  title :: string
  description :: string
  category :: string
  price :: jsnum
  rating :: jsnum
  stock :: jsnum
  brand :: "string option"
  availabilityStatus :: string
  returnPolicy :: string
  thumbnail :: string
  images :: "string list"

record Error =
  message :: string

section \<open>The data-fetching coordinator\<close>

text \<open>
  Modelled from the spec: the coordinator behind \<^verbatim>\<open>useQuery\<close> is the library
  @tanstack/react-query (version 5), which is not under src/. Its contract as the hook uses
  it: a cache of query states by the hash of the key; a query is pending, error or success and is fetching
  or idle; a hook call subscribes an observer to the query of its key and starts a fetch
  when the query is enabled and the observer is new to it; a fetch already in flight is
  not issued twice; a success stores the data and clears the error; a failure stores the
  error and keeps earlier data; a refetch keeps status and error while data is present;
  \<^verbatim>\<open>isLoading\<close> is fetching and pending; a disabled query is never fetched on its own.
  The calls of the producer are recorded in \<open>calls\<close>. \<open>Reject\<close> is the failure the library
  reports, after whatever retries it is configured to make.
\<close>

datatype request = getProduct jsnum

datatype key_part = KStr string | KNum jsnum

type_synonym query_key = "key_part list"

text \<open>
  The cache is indexed by \<^verbatim>\<open>hashKey\<close>, which is \<^verbatim>\<open>JSON.stringify\<close> of the key. The JSON text
  of an array of strings and numbers determines, and is determined by, the list of its
  values, where NaN and both infinities are written \<^verbatim>\<open>null\<close>: the keys
  \<^verbatim>\<open>['product', NaN]\<close> and \<^verbatim>\<open>['product', Infinity]\<close> are one cache entry.
\<close>

datatype json = JString string | JNumber rat | JNull

fun stringify :: "key_part \<Rightarrow> json" where
  "stringify (KStr s) = JString s"
| "stringify (KNum NaN) = JNull"
| "stringify (KNum PosInf) = JNull"
| "stringify (KNum NegInf) = JNull"
| "stringify (KNum (Fin q)) = JNumber q"

type_synonym query_hash = "json list"

definition hashKey :: "query_key \<Rightarrow> query_hash" where
  "hashKey k = map stringify k"

record query_options =
  queryKey :: query_key
  queryFn :: "unit \<Rightarrow> request"
  enabled :: bool

datatype query_status = Pending | Errored | Success

datatype fetch_status = Fetching | Idle

record query_state =
  q_data :: "Product option"
  q_error :: "Error option"
  status :: query_status
  fetchStatus :: fetch_status

record client =
  cache :: "query_hash \<Rightarrow> query_state option"
  calls :: "request list"
  observer :: "query_options option"

record query_result =
  data :: "Product option"
  isLoading :: bool
  error :: "Error option"

definition initial_query :: query_state where
  "initial_query = \<lparr>q_data = None, q_error = None, status = Pending, fetchStatus = Idle\<rparr>"

definition init_client :: client where
  "init_client = \<lparr>cache = Map.empty, calls = [], observer = None\<rparr>"

definition build :: "query_key \<Rightarrow> client \<Rightarrow> query_state" where
  "build k c = (case cache c (hashKey k) of None \<Rightarrow> initial_query | Some q \<Rightarrow> q)"

definition fetchState :: "query_state \<Rightarrow> query_state" where
  "fetchState q =
     (if q_data q = None
      then q\<lparr>q_error := None, status := Pending, fetchStatus := Fetching\<rparr>
      else q\<lparr>fetchStatus := Fetching\<rparr>)"

definition fetch :: "query_options \<Rightarrow> client \<Rightarrow> client" where
  "fetch opts c =
     (let h = hashKey (queryKey opts); q = build (queryKey opts) c
      in if fetchStatus q = Fetching then c\<lparr>cache := (cache c)(h \<mapsto> q)\<rparr>
         else c\<lparr>cache := (cache c)(h \<mapsto> fetchState q), calls := calls c @ [queryFn opts ()]\<rparr>)"

definition result_of :: "query_state \<Rightarrow> query_result" where
  "result_of q =
     \<lparr>data = q_data q,
      isLoading = (fetchStatus q = Fetching \<and> status q = Pending),
      error = q_error q\<rparr>"

definition useQuery :: "query_options \<Rightarrow> client \<Rightarrow> client \<times> query_result" where
  "useQuery opts c =
     (let h = hashKey (queryKey opts);
          c1 = c\<lparr>cache := (cache c)(h \<mapsto> build (queryKey opts) c), observer := Some opts\<rparr>;
          fresh = (case observer c of
                     None \<Rightarrow> True
                   | Some ob \<Rightarrow> hashKey (queryKey ob) \<noteq> h \<or> \<not> enabled ob);
          c2 = (if enabled opts \<and> fresh then fetch opts c1 else c1)
      in (c2, result_of (build (queryKey opts) c2)))"

definition resolve :: "query_key \<Rightarrow> Product \<Rightarrow> client \<Rightarrow> client" where
  "resolve k p c =
     (case cache c (hashKey k) of
        None \<Rightarrow> c
      | Some q \<Rightarrow>
          if fetchStatus q = Fetching
          then c\<lparr>cache := (cache c)(hashKey k \<mapsto>
                 q\<lparr>q_data := Some p, q_error := None, status := Success, fetchStatus := Idle\<rparr>)\<rparr>
          else c)"

definition reject :: "query_key \<Rightarrow> Error \<Rightarrow> client \<Rightarrow> client" where
  "reject k e c =
     (case cache c (hashKey k) of
        None \<Rightarrow> c
      | Some q \<Rightarrow>
          if fetchStatus q = Fetching
          then c\<lparr>cache := (cache c)(hashKey k \<mapsto>
                 q\<lparr>q_error := Some e, status := Errored, fetchStatus := Idle\<rparr>)\<rparr>
          else c)"

text \<open>
  A refetch the library starts by itself (window focus, reconnect, another observer
  mounting on stale data): only for the observed query, and only while it is enabled.
\<close>

definition refetch :: "client \<Rightarrow> client" where
  "refetch c =
     (case observer c of
        None \<Rightarrow> c
      | Some ob \<Rightarrow> if enabled ob then fetch ob c else c)"

section \<open>The hook\<close>

text \<open>
  src/hooks/useProduct.ts. \<open>productId\<close> is what \<^verbatim>\<open>useParams\<close> returns for the current
  route; \<open>useProduct_options\<close> is the object handed to \<^verbatim>\<open>useQuery\<close>.
\<close>

definition useProduct_options :: "string \<Rightarrow> query_options" where
  "useProduct_options productId =
     (let id = Number productId
      in \<lparr>queryKey = [KStr ''product'', KNum id],
          queryFn = (\<lambda>_. getProduct id),
          enabled = truthy id\<rparr>)"

definition useProduct :: "string \<Rightarrow> client \<Rightarrow> client \<times> query_result" where
  "useProduct productId c = useQuery (useProduct_options productId) c"

section \<open>Events of a route activation\<close>

datatype event =
    Render string
  | Resolve query_key Product
  | Reject query_key Error
  | Refetch

fun step :: "client \<Rightarrow> event \<Rightarrow> client" where
  "step c (Render productId) = fst (useProduct productId c)"
| "step c (Resolve k p) = resolve k p c"
| "step c (Reject k e) = reject k e c"
| "step c Refetch = refetch c"

definition run :: "client \<Rightarrow> event list \<Rightarrow> client" where
  "run c evs = foldl step c evs"

section \<open>Components\<close>

text \<open>
  A JSX child \<^verbatim>\<open>{e}\<close> whose value is undefined renders nothing; \<open>text_of\<close> is the text such
  a child contributes.
\<close>

definition text_of :: "string option \<Rightarrow> string" where
  "text_of v = (case v of None \<Rightarrow> [] | Some s \<Rightarrow> s)"

text \<open>
  components/ProductInfo: the optional chain \<^verbatim>\<open>product?.price.toFixed(2)\<close> is undefined as
  a whole when \<^verbatim>\<open>product\<close> is. The argument is the result of the component's own
  \<^verbatim>\<open>useProduct()\<close> call.
\<close>

record ProductInfo_view =
  title_slot :: string
  price_slot :: string
  description_slot :: string

definition ProductInfo :: "query_result \<Rightarrow> ProductInfo_view" where
  "ProductInfo r =
     (let product = data r
      in \<lparr>title_slot = text_of (map_option title product),
          price_slot = ''$'' @ text_of (map_option (\<lambda>p. toFixed 2 (price p)) product),
          description_slot = text_of (map_option description product)\<rparr>)"

text \<open>
  components/ProductDetail and components/ProductNavigation: the link back to \<^verbatim>\<open>/\<close> and the
  info panel. The image, meta and actions panels are not under src/ and are left out of
  the view.
\<close>

record ProductDetail_view =
  backLink_to :: string
  info :: ProductInfo_view

definition ProductDetail :: "query_result \<Rightarrow> ProductDetail_view" where
  "ProductDetail r = \<lparr>backLink_to = ''/'', info = ProductInfo r\<rparr>"

text \<open>
  routes/products/$productId.tsx: the children of \<^verbatim>\<open>Layout.Main\<close>, three independent
  conditionals on the three fields of the hook's result.
\<close>

datatype node = Para string | Detail ProductDetail_view

definition ProductPage :: "query_result \<Rightarrow> node list" where
  "ProductPage r =
     (if isLoading r then [Para ''Loading product...''] else [])
     @ (case error r of None \<Rightarrow> [] | Some e \<Rightarrow> [Para (''Error loading product: '' @ message e)])
     @ (case data r of None \<Rightarrow> [] | Some product \<Rightarrow> [Detail (ProductDetail r)])"

text \<open>
  Modelled from the spec: components/ProductImage is not under src/. The spec has the image
  panel show \<^verbatim>\<open>thumbnail\<close> when \<^verbatim>\<open>images\<close> is empty and \<^verbatim>\<open>images[0]\<close> otherwise; without a
  product there is no source.
\<close>

definition ProductImage_src :: "query_result \<Rightarrow> string option" where
  "ProductImage_src r =
     (case data r of
        None \<Rightarrow> None
      | Some product \<Rightarrow>
          (case images product of [] \<Rightarrow> Some (thumbnail product) | img # _ \<Rightarrow> Some img))"

section \<open>Invariants of the coordinator\<close>

text \<open>
  Predicates used in the proofs only. \<open>query_ok\<close>: pending means neither data nor error,
  success means data and no error, error means an error. \<open>guard_inv\<close>: a cache entry
  that is no longer in its initial state has been requested for an id whose key hashes to
  it, only truthy ids have been requested, and the observer is the hook's.
\<close>

fun is_Render :: "event \<Rightarrow> bool" where
  "is_Render (Render s) = True"
| "is_Render ev = False"

fun is_settlement :: "event \<Rightarrow> bool" where
  "is_settlement (Resolve k p) = True"
| "is_settlement (Reject k e) = True"
| "is_settlement ev = False"

definition query_ok :: "query_state \<Rightarrow> bool" where
  "query_ok q =
     (case status q of
        Pending \<Rightarrow> q_data q = None \<and> q_error q = None
      | Success \<Rightarrow> q_data q \<noteq> None \<and> q_error q = None
      | Errored \<Rightarrow> q_error q \<noteq> None)"

definition cache_ok :: "client \<Rightarrow> bool" where
  "cache_ok c = (\<forall>h q. cache c h = Some q \<longrightarrow> query_ok q)"

definition guard_inv :: "client \<Rightarrow> bool" where
  "guard_inv c =
     ((\<forall>h q. cache c h = Some q \<longrightarrow>
          q = initial_query
          \<or> (\<exists>x. h = hashKey [KStr ''product'', KNum x] \<and> getProduct x \<in> set (calls c)))
      \<and> (\<forall>x. getProduct x \<in> set (calls c) \<longrightarrow> truthy x)
      \<and> (\<forall>ob. observer c = Some ob \<longrightarrow> (\<exists>s. ob = useProduct_options s)))"

section \<open>Test data\<close>

text \<open>
  \<^verbatim>\<open>mockProduct\<close> of components/ProductDetail/ProductDetail.test.tsx; the literal
  \<^verbatim>\<open>99.99\<close> is the binary64 value nearest to it.
\<close>

definition mockProduct :: Product where
  "mockProduct =
     \<lparr>id' = Fin 1, title = ''Test Product'',
      description = ''This is a test product description'',
      category = ''Electronics'', price = to_double (9999 / 100), rating = Fin (9 / 2),
      stock = Fin 50, brand = Some ''Test Brand'', availabilityStatus = ''In Stock'',
      returnPolicy = ''30 days'', thumbnail = ''https://example.com/thumbnail.jpg'',
      images = [''https://example.com/image1.jpg'', ''https://example.com/image2.jpg'']\<rparr>"

section \<open>Conversions of concrete route parameters\<close>

lemma Number_1: "Number ''1'' = Fin 1"
  by code_simp

lemma Number_0: "Number ''0'' = Fin 0"
  by code_simp

lemma Number_abc: "Number ''abc'' = NaN"
  by code_simp

lemma Number_01: "Number ''01'' = Fin 1"
  by code_simp

lemma Number_1_0: "Number ''1.0'' = Fin 1"
  by code_simp


lemma Number_1_5: "Number ''1.5'' = Fin (3 / 2)"
  by code_simp

lemma Number_12p: "Number ''12p'' = NaN"
  by code_simp


lemma Number_nbsp: "Number [CHR 0xA0, CHR ''1''] = Fin 1"
  by code_simp

section \<open>The id derived from the route parameter\<close>

lemma is_digit_in_10: "is_digit_in 10 c = (48 \<le> (of_char c :: nat) \<and> (of_char c :: nat) \<le> 57)"
  by (auto simp: is_digit_in_def digit_value_def Let_def)

lemma digit_not_ws: "is_digit_in 10 c \<Longrightarrow> \<not> is_ws c"
  by (auto simp: is_digit_in_10 is_ws_def Let_def)

lemma bitlen_bounds: "0 < n \<Longrightarrow> 2 ^ (bitlen n - 1) \<le> n \<and> n < 2 ^ bitlen n"
proof (induction n rule: bitlen.induct)
  case (1 n)
  show ?case
  proof (cases "n div 2 = 0")
    case True
    then have "n = 1" using "1.prems" by presburger
    then show ?thesis by (simp add: bitlen.simps)
  next
    case False
    then have ih: "2 ^ (bitlen (n div 2) - 1) \<le> n div 2 \<and> n div 2 < 2 ^ bitlen (n div 2)"
      using "1.IH" "1.prems" by simp
    have pos: "0 < bitlen (n div 2)"
      using False by (simp add: bitlen.simps)
    have b: "bitlen n = Suc (bitlen (n div 2))"
      using "1.prems" by (simp add: bitlen.simps)
    have p: "(2::nat) ^ bitlen (n div 2) = 2 * 2 ^ (bitlen (n div 2) - 1)"
      using pos by (cases "bitlen (n div 2)") simp_all
    have lo: "2 * (n div 2) \<le> n" by simp
    have hi: "n < 2 * (n div 2) + 2" by presburger
    have "(2::nat) ^ bitlen (n div 2) \<le> n"
      using p ih lo by linarith
    moreover have "n < 2 * 2 ^ bitlen (n div 2)"
      using ih hi by linarith
    ultimately show ?thesis using b by simp
  qed
qed


lemma bitlen_le: "n \<le> 2 ^ k \<Longrightarrow> bitlen n \<le> Suc k"
proof (cases "n = 0")
  case True
  then show ?thesis by (simp add: bitlen.simps)
next
  case False
  assume le: "n \<le> 2 ^ k"
  from False have "0 < n" by simp
  from bitlen_bounds [OF this] le have "(2::nat) ^ (bitlen n - 1) \<le> 2 ^ k"
    by linarith
  then have "bitlen n - 1 \<le> k" by simp
  then show ?thesis by simp
qed

lemma round_half_even_int [simp]: "round_half_even (of_int z) = z"
  by (simp add: round_half_even_def)

lemma round_half_even_nat [simp]: "round_half_even (of_nat m) = int m"
  using round_half_even_int [of "int m"] by simp

lemma bitlen_shift: "0 < m \<Longrightarrow> bitlen (m * 2 ^ k) = bitlen m + k"
proof (induction k)
  case 0
  then show ?case by simp
next
  case (Suc k)
  have "bitlen (m * 2 ^ Suc k) = Suc (bitlen (m * 2 ^ Suc k div 2))"
    using Suc.prems by (subst bitlen.simps) simp
  then show ?case using Suc by simp
qed

lemma pow2_shift: "j \<le> 53 \<Longrightarrow> pow2 (int j + int k - 53) = 2 ^ k / 2 ^ (53 - j)"
proof (cases "53 \<le> j + k")
  case True
  assume j: "j \<le> 53"
  then have "nat (int j + int k - 53) + (53 - j) = k" using True by simp
  then have "(2::rat) ^ k = 2 ^ nat (int j + int k - 53) * 2 ^ (53 - j)"
    by (simp only: power_add [symmetric])
  then show ?thesis using True by (simp add: pow2_def)
next
  case False
  assume j: "j \<le> 53"
  then have "nat (- (int j + int k - 53)) + k = 53 - j" using False by simp
  then have "(2::rat) ^ (53 - j) = 2 ^ nat (- (int j + int k - 53)) * 2 ^ k"
    by (simp only: power_add [symmetric])
  then show ?thesis using False by (simp add: pow2_def)
qed

text \<open>An integer with at most 53 significant bits, below \<open>2 ^ 1024\<close>, is its own binary64 value.\<close>

lemma to_double_exact:
  assumes "0 < m" "m < 2 ^ 53" "m * 2 ^ k < 2 ^ 1024"
  shows "to_double (of_nat (m * 2 ^ k)) = Fin (of_nat (m * 2 ^ k))"
proof -
  define n where "n = m * 2 ^ k"
  define b where "b = bitlen m"
  have pos: "0 < n" using assms(1) by (simp add: n_def)
  have bb: "m < 2 ^ b" "2 ^ (b - 1) \<le> m"
    using bitlen_bounds [OF assms(1)] by (simp_all add: b_def)
  have b1: "1 \<le> b" using bb(1) assms(1) by (cases b) simp_all
  have b53: "b \<le> 53"
  proof -
    have lt: "(2::nat) ^ (b - 1) < 2 ^ 53" using bb(2) assms(2) by linarith
    have "b - 1 < 53" by (rule power_less_imp_less_exp [OF _ lt]) simp
    then show ?thesis by simp
  qed
  have one: "(1::rat) \<le> of_nat n" using pos by simp
  have bn: "bitlen n = b + k"
    using bitlen_shift [OF assms(1), of k] by (simp add: b_def n_def)
  have fl: "floor_log2 (of_nat n) = int b + int k - 1"
    using one by (simp add: floor_log2_def bn)
  have e: "max (floor_log2 (of_nat n)) (- 1022) - 52 = int b + int k - 53"
    using fl b1 by simp
  have ulp: "pow2 (int b + int k - 53) = 2 ^ k / 2 ^ (53 - b)"
    using b53 by (rule pow2_shift)
  have q: "(of_nat n :: rat) / pow2 (int b + int k - 53) = of_nat (m * 2 ^ (53 - b))"
    by (simp add: ulp n_def)
  have unscaled: "of_nat (m * 2 ^ (53 - b)) * pow2 (int b + int k - 53) = (of_nat n :: rat)"
    by (simp add: ulp n_def)
  have small: "\<not> (2 :: rat) ^ 1024 \<le> of_nat n"
  proof -
    have "(of_nat n :: rat) < of_nat (2 ^ 1024)"
      using assms(3) unfolding n_def by (simp only: of_nat_less_iff)
    then show ?thesis by simp
  qed
  have "to_double (of_nat n) = Fin (of_nat n)"
    using pos small
    by (simp add: to_double_def Let_def e q unscaled del: of_nat_mult of_nat_power)
  then show ?thesis by (simp only: n_def)
qed

lemma to_double_nat:
  assumes "n \<le> 2 ^ 53"
  shows "to_double (of_nat n) = Fin (of_nat n)"
proof -
  consider "n = 0" | "0 < n" "n < 2 ^ 53" | "n = 2 ^ 53"
    using assms by linarith
  then show ?thesis
  proof cases
    case 1
    then show ?thesis by (simp add: to_double_def)
  next
    case 2
    then show ?thesis using to_double_exact [of n 0] by simp
  next
    case 3
    then show ?thesis using to_double_exact [of 1 53] by simp
  qed
qed

lemma trim_no_ws:
  assumes "\<forall>c\<in>set s. \<not> is_ws c"
  shows "trim s = s"
proof -
  have front: "dropWhile is_ws s = s"
    using assms by (cases s) simp_all
  have "dropWhile is_ws (rev s) = rev s"
  proof (cases "rev s")
    case Nil
    then show ?thesis by simp
  next
    case (Cons y ys)
    then have "y \<in> set s" by (metis list.set_intros(1) set_rev)
    then show ?thesis using assms Cons by simp
  qed
  then show ?thesis using front by (simp add: trim_def)
qed

lemma digit_chars:
  assumes "is_digit_in 10 c"
  shows "c \<noteq> CHR ''x''" "c \<noteq> CHR ''X''" "c \<noteq> CHR ''o''" "c \<noteq> CHR ''O''"
    "c \<noteq> CHR ''b''" "c \<noteq> CHR ''B''" "c \<noteq> CHR ''+''" "c \<noteq> CHR ''-''" "c \<noteq> CHR ''I''"
  using assms by (auto simp: is_digit_in_10)

lemma radix_prefix_digits:
  assumes "list_all (is_digit_in 10) s"
  shows "radix_prefix s = None"
proof (cases s)
  case Nil
  then show ?thesis by (simp add: radix_prefix_def)
next
  case (Cons c0 t)
  show ?thesis
  proof (cases t)
    case Nil
    then show ?thesis using Cons by (simp add: radix_prefix_def)
  next
    case (Cons c1 u)
    have "is_digit_in 10 c1"
      using assms \<open>s = c0 # t\<close> Cons by simp
    from digit_chars(1-6) [OF this] show ?thesis
      using \<open>s = c0 # t\<close> Cons by (simp add: radix_prefix_def)
  qed
qed

lemma unsigned_digits:
  assumes "all_digits s"
  shows "StrUnsignedDecimalLiteral s = MV (of_nat (digits_value 10 s))"
proof -
  have all: "\<forall>c\<in>set s. is_digit_in 10 c" and ne: "s \<noteq> []"
    using assms by (simp_all add: all_digits_def list_all_iff)
  have inf: "s \<noteq> ''Infinity''"
    using all digit_chars(9) by fastforce
  have tw: "takeWhile (is_digit_in 10) s = s" "dropWhile (is_digit_in 10) s = []"
    using all by simp_all
  show ?thesis
    using inf ne by (simp add: StrUnsignedDecimalLiteral_def tw exponent_part_def pow10_def)
qed

lemma Number_digits:
  assumes "all_digits s"
  shows "Number s = to_double (of_nat (digits_value 10 s))"
proof -
  have all: "\<forall>c\<in>set s. is_digit_in 10 c" and ne: "s \<noteq> []"
    using assms by (simp_all add: all_digits_def list_all_iff)
  have t: "trim s = s"
    using all digit_not_ws by (intro trim_no_ws) blast
  have r: "radix_prefix s = None"
    using assms by (simp add: all_digits_def radix_prefix_digits)
  obtain c cs where s: "s = c # cs" using ne by (cases s) auto
  then have "c \<noteq> CHR ''-''" "c \<noteq> CHR ''+''"
    using all digit_chars by auto
  then have "StrDecimalLiteral s = to_double (of_nat (digits_value 10 s))"
    using unsigned_digits [OF assms] by (simp add: StrDecimalLiteral_def s)
  then show ?thesis
    using ne by (simp add: Number_def t r)
qed

lemma isInteger_nat [simp]: "isInteger (Fin (of_nat n))"
  by (simp add: isInteger_def)

lemma point_not_digit: "\<not> is_digit_in 10 CHR ''.''"
  by (simp add: is_digit_in_10)

lemma point_not_ws: "\<not> is_ws CHR ''.''"
  by (simp add: is_ws_def)

lemma radix_prefix_None:
  assumes "\<forall>c\<in>set (tl s). c \<notin> set ''xXoObB''"
  shows "radix_prefix s = None"
proof (cases s)
  case Nil
  then show ?thesis by (simp add: radix_prefix_def)
next
  case (Cons c0 t)
  show ?thesis
  proof (cases t)
    case Nil
    then show ?thesis using Cons by (simp add: radix_prefix_def)
  next
    case (Cons c1 u)
    have "c1 \<notin> set ''xXoObB''"
      using assms \<open>s = c0 # t\<close> Cons by simp
    then have "c1 \<noteq> CHR ''x''" "c1 \<noteq> CHR ''X''" "c1 \<noteq> CHR ''o''" "c1 \<noteq> CHR ''O''"
      "c1 \<noteq> CHR ''b''" "c1 \<noteq> CHR ''B''"
      by auto
    then show ?thesis
      using \<open>s = c0 # t\<close> Cons by (simp add: radix_prefix_def)
  qed
qed

lemma digit_not_radix: "is_digit_in 10 c \<Longrightarrow> c \<notin> set ''xXoObB''"
  using digit_chars(1-6) [of c] by auto

text \<open>Digits, a point and digits: the fraction is kept.\<close>

lemma Number_fraction:
  assumes "all_digits a" "all_digits b"
  shows "Number (a @ ''.'' @ b) = to_double (of_nat (digits_value 10 (a @ b)) / 10 ^ length b)"
proof -
  let ?s = "a @ CHR ''.'' # b"
  let ?P = "is_digit_in 10"
  have da: "\<forall>c\<in>set a. ?P c" and na: "a \<noteq> []"
    using assms(1) by (simp_all add: all_digits_def list_all_iff)
  have db: "\<forall>c\<in>set b. ?P c" and nb: "b \<noteq> []"
    using assms(2) by (simp_all add: all_digits_def list_all_iff)
  have "\<forall>c\<in>set ?s. \<not> is_ws c"
    using da db digit_not_ws point_not_ws by auto
  then have t: "trim ?s = ?s" by (rule trim_no_ws)
  obtain c cs where a: "a = c # cs" using na by (cases a) auto
  have c: "?P c" using da a by simp
  have "\<forall>x\<in>set (tl ?s). x \<notin> set ''xXoObB''"
    using da db digit_not_radix by (auto simp: a)
  then have r: "radix_prefix ?s = None" by (rule radix_prefix_None)
  have inf: "?s \<noteq> ''Infinity''"
    using digit_chars(9) [OF c] by (simp add: a)
  have tw: "takeWhile ?P ?s = a" "dropWhile ?P ?s = CHR ''.'' # b"
    using da point_not_digit by simp_all
  have tb: "takeWhile ?P b = b" "dropWhile ?P b = []"
    using db by simp_all
  have p: "pow10 (- int (length b)) = 1 / 10 ^ length b"
    using nb by (simp add: pow10_def)
  have "StrUnsignedDecimalLiteral ?s = MV (of_nat (digits_value 10 (a @ b)) / 10 ^ length b)"
    using inf na by (simp add: StrUnsignedDecimalLiteral_def Let_def tw tb exponent_part_def p)
  moreover have "c \<noteq> CHR ''-''" "c \<noteq> CHR ''+''"
    using digit_chars [OF c] by auto
  ultimately have "StrDecimalLiteral ?s = to_double (of_nat (digits_value 10 (a @ b)) / 10 ^ length b)"
    by (simp add: StrDecimalLiteral_def a)
  then show ?thesis
    using na by (simp add: Number_def t r)
qed

text \<open>
  Digits followed by one character that is no digit, point or white space: the whole
  string has to be a literal, so the result is NaN.
\<close>

lemma radix_prefix_Some: "radix_prefix s = Some r \<Longrightarrow> \<exists>c0 c1 u. s = c0 # c1 # u \<and> c1 \<in> set ''xXoObB''"
proof (cases s)
  case Nil
  assume "radix_prefix s = Some r"
  then show ?thesis using Nil by (simp add: radix_prefix_def)
next
  case (Cons c0 t)
  assume some: "radix_prefix s = Some r"
  show ?thesis
  proof (cases t)
    case Nil
    then show ?thesis using some Cons by (simp add: radix_prefix_def)
  next
    case (Cons c1 u)
    have "c1 \<in> set ''xXoObB''"
    proof (rule ccontr)
      assume "c1 \<notin> set ''xXoObB''"
      then have "\<forall>c\<in>set (tl [c0, c1]). c \<notin> set ''xXoObB''" by simp
      then have "radix_prefix [c0, c1] = None" by (rule radix_prefix_None)
      moreover have "radix_prefix s = radix_prefix [c0, c1]"
        using \<open>s = c0 # t\<close> Cons by (simp add: radix_prefix_def)
      ultimately show False using some by simp
    qed
    then show ?thesis using \<open>s = c0 # t\<close> Cons by blast
  qed
qed

lemma Number_trailing:
  assumes "all_digits a" "\<not> is_digit_in 10 c" "c \<noteq> CHR ''.''" "\<not> is_ws c"
  shows "Number (a @ [c]) = NaN"
proof -
  let ?s = "a @ [c]"
  let ?P = "is_digit_in 10"
  have da: "\<forall>x\<in>set a. ?P x" and na: "a \<noteq> []"
    using assms(1) by (simp_all add: all_digits_def list_all_iff)
  have "\<forall>x\<in>set ?s. \<not> is_ws x"
    using da digit_not_ws assms(4) by auto
  then have t: "trim ?s = ?s" by (rule trim_no_ws)
  obtain d ds where a: "a = d # ds" using na by (cases a) auto
  have d: "?P d" using da a by simp
  show ?thesis
  proof (cases "radix_prefix ?s")
    case (Some r)
    then obtain c0 c1 u where s: "?s = c0 # c1 # u" and c1: "c1 \<in> set ''xXoObB''"
      using radix_prefix_Some by blast
    have "ds = []"
    proof (cases ds)
      case Nil
      then show ?thesis .
    next
      case (Cons e es)
      then have "c1 = e" using s a by simp
      moreover have "?P e" using da a Cons by simp
      ultimately show ?thesis using c1 digit_not_radix by blast
    qed
    then have "drop 2 ?s = []" by (simp add: a)
    then show ?thesis
      using Some by (simp add: Number_def t)
  next
    case None
    have inf: "?s \<noteq> ''Infinity''"
      using digit_chars(9) [OF d] by (simp add: a)
    have tw: "takeWhile ?P ?s = a" "dropWhile ?P ?s = [c]"
      using da assms(2) by simp_all
    have ex: "exponent_part [c] = None"
      by (simp add: exponent_part_def signed_integer_def)
    have "StrUnsignedDecimalLiteral ?s = NotNumeric"
      using inf assms(3) na by (simp add: StrUnsignedDecimalLiteral_def Let_def tw ex)
    moreover have "d \<noteq> CHR ''-''" "d \<noteq> CHR ''+''"
      using digit_chars [OF d] by auto
    ultimately have "StrDecimalLiteral ?s = NaN"
      by (simp add: StrDecimalLiteral_def a)
    then show ?thesis
      using None by (simp add: Number_def t)
  qed
qed

lemma useProduct_options_sel [simp]:
  "queryKey (useProduct_options s) = [KStr ''product'', KNum (Number s)]"
  "queryFn (useProduct_options s) u = getProduct (Number s)"
  "enabled (useProduct_options s) = truthy (Number s)"
  by (simp_all add: useProduct_options_def Let_def)

text \<open>
  Claim C6, amended. The id the hook derives is \<^verbatim>\<open>Number(productId)\<close>, used in the key and
  in the producer call. A non-empty run of decimal digits gives the binary64 rounding
  \<open>to_double\<close> of the integer it denotes, which is that integer itself when it is at most
  \<open>2 ^ 53\<close>; digits, a point and digits give the binary64 rounding of that decimal
  fraction; and digits followed by one character that is no digit, point or white space
  give NaN.
\<close>

theorem derived_id_is_Number:
  "queryKey (useProduct_options productId) = [KStr ''product'', KNum (Number productId)]
   \<and> queryFn (useProduct_options productId) () = getProduct (Number productId)
   \<and> (all_digits productId \<longrightarrow>
        Number productId = to_double (of_nat (digits_value 10 productId)))
   \<and> (all_digits productId \<and> digits_value 10 productId \<le> 2 ^ 53 \<longrightarrow>
        Number productId = Fin (of_nat (digits_value 10 productId))
        \<and> isInteger (Number productId))
   \<and> (all_digits a \<and> all_digits b \<and> productId = a @ ''.'' @ b \<longrightarrow>
        Number productId = to_double (of_nat (digits_value 10 (a @ b)) / 10 ^ length b))
   \<and> (all_digits a \<and> \<not> is_digit_in 10 c \<and> c \<noteq> CHR ''.'' \<and> \<not> is_ws c \<and> productId = a @ [c] \<longrightarrow>
        Number productId = NaN)"
  using Number_digits [of productId] to_double_nat [of "digits_value 10 productId"]
    Number_fraction [of a b] Number_trailing [of a c]
  by simp

lemma digits_42: "all_digits ''42''" "digits_value 10 ''42'' = 42"
  by (simp_all add: all_digits_def is_digit_in_def digit_value_def digits_value_def)

lemma digits_1_5: "all_digits ''1''" "all_digits ''5''" "digits_value 10 ''15'' = 15"
  by (simp_all add: all_digits_def is_digit_in_def digit_value_def digits_value_def)

lemma digits_12p: "all_digits ''12''" "\<not> is_digit_in 10 CHR ''p''" "\<not> is_ws CHR ''p''"
  by (simp_all add: all_digits_def is_digit_in_def digit_value_def is_ws_def)

theorem derived_id_is_Number_witness:
  "all_digits ''42'' \<and> digits_value 10 ''42'' \<le> 2 ^ 53
   \<and> queryKey (useProduct_options ''42'') = [KStr ''product'', KNum (Fin 42)]
   \<and> isInteger (Number ''42'')
   \<and> all_digits ''1'' \<and> all_digits ''5'' \<and> Number ''1.5'' = to_double (15 / 10)
   \<and> all_digits ''12'' \<and> \<not> is_digit_in 10 CHR ''p'' \<and> \<not> is_ws CHR ''p''
   \<and> Number ''12p'' = NaN"
proof -
  have i: "Number ''42'' = Fin (of_nat (digits_value 10 ''42'')) \<and> isInteger (Number ''42'')"
    by (rule derived_id_is_Number [of "''42''", THEN conjunct2, THEN conjunct2, THEN conjunct2,
          THEN conjunct1, rule_format])
       (simp add: digits_42)
  have f: "Number ''1.5'' = to_double (of_nat (digits_value 10 (''1'' @ ''5'')) / 10 ^ length ''5'')"
    by (rule derived_id_is_Number [of "''1.5''" "''1''" "''5''", THEN conjunct2, THEN conjunct2,
          THEN conjunct2, THEN conjunct2, THEN conjunct1, rule_format])
       (simp add: digits_1_5)
  have n: "Number ''12p'' = NaN"
    by (rule derived_id_is_Number [of "''12p''" "''12''" _ "CHR ''p''", THEN conjunct2,
          THEN conjunct2, THEN conjunct2, THEN conjunct2, THEN conjunct2, rule_format])
       (simp add: digits_12p)
  have k: "queryKey (useProduct_options ''42'') = [KStr ''product'', KNum (Fin 42)]"
    using i by (simp add: digits_42)
  show ?thesis
    using i f n k by (auto simp: digits_42 digits_1_5 digits_12p)
qed

lemma three_halves_not_integer: "\<not> isInteger (Fin (3 / 2))"
  by code_simp

text \<open>
  Claim C6, as stated, fails: the parameter \<^verbatim>\<open>"1.5"\<close> gives the id 1.5 and \<^verbatim>\<open>"abc"\<close> gives
  NaN, neither of them an integer.
\<close>

theorem derived_id_not_integer:
  "queryKey (useProduct_options ''1.5'') = [KStr ''product'', KNum (Fin (3 / 2))]
   \<and> \<not> isInteger (Number ''1.5'')
   \<and> queryKey (useProduct_options ''abc'') = [KStr ''product'', KNum NaN]
   \<and> \<not> isInteger (Number ''abc'')"
  by (simp add: Number_1_5 Number_abc three_halves_not_integer) (simp add: isInteger_def)

section \<open>Runs of the coordinator\<close>

lemma run_Nil [simp]: "run c [] = c"
  by (simp add: run_def)

lemma run_Cons [simp]: "run c (ev # evs) = run (step c ev) evs"
  by (simp add: run_def)

lemma run_snoc [simp]: "run c (evs @ [ev]) = step (run c evs) ev"
  by (simp add: run_def)

lemma hashKey_product [simp]:
  "hashKey [KStr ''product'', KNum x] = [JString ''product'', stringify (KNum x)]"
  by (simp add: hashKey_def)

lemma stringify_Fin_eq: "stringify (KNum x) = JNumber q \<longleftrightarrow> x = Fin q"
  by (cases x) auto

lemma stringify_null_eq: "stringify (KNum x) = JNull \<longleftrightarrow> x = NaN \<or> x = PosInf \<or> x = NegInf"
  by (cases x) auto

lemma initial_not_fetching [simp]: "fetchStatus initial_query = Idle"
  by (simp add: initial_query_def)

lemma build_subscribed:
  "build k (c\<lparr>cache := (cache c)(hashKey k \<mapsto> q), observer := ob\<rparr>) = q"
  by (simp add: build_def)

subsection \<open>Status, data and error agree\<close>

lemma query_ok_initial: "query_ok initial_query"
  by (simp add: query_ok_def initial_query_def)

lemma query_ok_fetchState: "query_ok q \<Longrightarrow> query_ok (fetchState q)"
  by (auto simp: query_ok_def fetchState_def split: query_status.splits)

lemma query_ok_build: "cache_ok c \<Longrightarrow> query_ok (build k c)"
  by (auto simp: cache_ok_def build_def query_ok_initial split: option.splits)

lemma cache_ok_fetch: "cache_ok c \<Longrightarrow> cache_ok (fetch opts c)"
proof -
  assume ok: "cache_ok c"
  have "query_ok (build (queryKey opts) c)" using ok by (rule query_ok_build)
  then show ?thesis
    using ok by (auto simp: cache_ok_def fetch_def Let_def intro: query_ok_fetchState)
qed

lemma cache_ok_subscribe:
  "cache_ok c \<Longrightarrow> cache_ok (c\<lparr>cache := (cache c)(h \<mapsto> build k c), observer := ob\<rparr>)"
  using query_ok_build [of c k] by (auto simp: cache_ok_def)

lemma cache_ok_useQuery: "cache_ok c \<Longrightarrow> cache_ok (fst (useQuery opts c))"
  by (simp add: useQuery_def Let_def cache_ok_fetch cache_ok_subscribe)

lemma cache_ok_resolve: "cache_ok c \<Longrightarrow> cache_ok (resolve k p c)"
  by (auto simp: cache_ok_def resolve_def query_ok_def split: option.splits)

lemma cache_ok_reject: "cache_ok c \<Longrightarrow> cache_ok (reject k e c)"
  by (auto simp: cache_ok_def reject_def query_ok_def split: option.splits)

lemma cache_ok_refetch: "cache_ok c \<Longrightarrow> cache_ok (refetch c)"
  by (simp add: refetch_def cache_ok_fetch split: option.splits)

lemma cache_ok_step: "cache_ok c \<Longrightarrow> cache_ok (step c ev)"
  by (cases ev)
     (simp_all add: useProduct_def cache_ok_useQuery cache_ok_resolve cache_ok_reject cache_ok_refetch)

lemma cache_ok_init: "cache_ok init_client"
  by (simp add: cache_ok_def init_client_def)

lemma cache_ok_run: "cache_ok c \<Longrightarrow> cache_ok (run c evs)"
  by (induction evs arbitrary: c) (simp_all add: cache_ok_step)

lemma useQuery_entry:
  "\<exists>q. cache (fst (useQuery opts c)) (hashKey (queryKey opts)) = Some q
       \<and> snd (useQuery opts c) = result_of q"
  by (simp add: useQuery_def fetch_def build_def Let_def)

lemma useProduct_result_ok:
  assumes "cache_ok c"
  shows "\<exists>q. query_ok q \<and> snd (useProduct s c) = result_of q"
proof -
  obtain q where q:
    "cache (fst (useQuery (useProduct_options s) c)) (hashKey (queryKey (useProduct_options s))) = Some q"
    "snd (useQuery (useProduct_options s) c) = result_of q"
    using useQuery_entry by blast
  have "cache_ok (fst (useQuery (useProduct_options s) c))"
    using assms by (rule cache_ok_useQuery)
  then have "query_ok q" using q(1) unfolding cache_ok_def by blast
  then show ?thesis using q(2) by (auto simp: useProduct_def)
qed

lemma loading_alone:
  assumes "query_ok q" "isLoading (result_of q)"
  shows "data (result_of q) = None \<and> error (result_of q) = None"
  using assms by (simp add: query_ok_def result_of_def)

subsection \<open>Only truthy ids are requested\<close>

lemma guard_invI:
  assumes "\<And>h q. cache c h = Some q \<Longrightarrow> q \<noteq> initial_query \<Longrightarrow>
             \<exists>x. h = hashKey [KStr ''product'', KNum x] \<and> getProduct x \<in> set (calls c)"
    and "\<And>x. getProduct x \<in> set (calls c) \<Longrightarrow> truthy x"
    and "\<And>ob. observer c = Some ob \<Longrightarrow> \<exists>s. ob = useProduct_options s"
  shows "guard_inv c"
  using assms unfolding guard_inv_def by blast

lemma guard_inv_cache:
  "guard_inv c \<Longrightarrow> cache c h = Some q \<Longrightarrow> q \<noteq> initial_query \<Longrightarrow>
   \<exists>x. h = hashKey [KStr ''product'', KNum x] \<and> getProduct x \<in> set (calls c)"
  unfolding guard_inv_def by blast

lemma guard_inv_calls: "guard_inv c \<Longrightarrow> getProduct x \<in> set (calls c) \<Longrightarrow> truthy x"
  unfolding guard_inv_def by blast

lemma guard_inv_observer: "guard_inv c \<Longrightarrow> observer c = Some ob \<Longrightarrow> \<exists>s. ob = useProduct_options s"
  unfolding guard_inv_def by blast

lemma guard_inv_init: "guard_inv init_client"
  by (simp add: guard_inv_def init_client_def)

lemma guard_inv_fetch:
  assumes inv: "guard_inv c" and tr: "truthy (Number s)"
  shows "guard_inv (fetch (useProduct_options s) c)"
proof (rule guard_invI)
  let ?c' = "fetch (useProduct_options s) c"
  let ?h = "hashKey [KStr ''product'', KNum (Number s)]"
  have sub: "set (calls c) \<subseteq> set (calls ?c')"
    by (auto simp: fetch_def Let_def)
  have new: "set (calls ?c') \<subseteq> insert (getProduct (Number s)) (set (calls c))"
    by (auto simp: fetch_def Let_def)
  have obs: "observer ?c' = observer c"
    by (simp add: fetch_def Let_def)
  show "\<exists>x. h = hashKey [KStr ''product'', KNum x] \<and> getProduct x \<in> set (calls ?c')"
    if "cache ?c' h = Some q" "q \<noteq> initial_query" for h q
  proof (cases "h = ?h")
    case False
    then have "cache c h = Some q"
      using that(1) by (auto simp: fetch_def Let_def split: if_splits)
    then show ?thesis
      using guard_inv_cache [OF inv _ that(2)] sub by blast
  next
    case True
    show ?thesis
    proof (cases "fetchStatus (build [KStr ''product'', KNum (Number s)] c) = Fetching")
      case False
      then have "getProduct (Number s) \<in> set (calls ?c')"
        by (simp add: fetch_def Let_def)
      then show ?thesis using True by blast
    next
      case fetching: True
      then have "q = build [KStr ''product'', KNum (Number s)] c"
        using that(1) True by (simp add: fetch_def Let_def)
      then have "cache c h = Some q"
        using that(2) True by (auto simp: build_def split: option.splits)
      then show ?thesis
        using guard_inv_cache [OF inv _ that(2)] sub by blast
    qed
  qed
  show "truthy x" if "getProduct x \<in> set (calls ?c')" for x
    using that new tr guard_inv_calls [OF inv] by auto
  show "\<exists>t. ob = useProduct_options t" if "observer ?c' = Some ob" for ob
    using that obs guard_inv_observer [OF inv] by simp
qed

lemma guard_inv_subscribe:
  assumes inv: "guard_inv c"
  shows "guard_inv (c\<lparr>cache := (cache c)(hashKey k \<mapsto> build k c),
                      observer := Some (useProduct_options s)\<rparr>)"
proof (rule guard_invI)
  let ?c' = "c\<lparr>cache := (cache c)(hashKey k \<mapsto> build k c), observer := Some (useProduct_options s)\<rparr>"
  show "\<exists>x. h = hashKey [KStr ''product'', KNum x] \<and> getProduct x \<in> set (calls ?c')"
    if "cache ?c' h = Some q" "q \<noteq> initial_query" for h q
  proof -
    have "cache c h = Some q"
      using that by (auto simp: build_def split: if_splits option.splits)
    then show ?thesis
      using guard_inv_cache [OF inv _ that(2)] by simp
  qed
  show "truthy x" if "getProduct x \<in> set (calls ?c')" for x
    using that guard_inv_calls [OF inv] by simp
  show "\<exists>t. ob = useProduct_options t" if "observer ?c' = Some ob" for ob
    using that by auto
qed

lemma guard_inv_useProduct: "guard_inv c \<Longrightarrow> guard_inv (fst (useProduct s c))"
  using guard_inv_subscribe [where c = c and k = "[KStr ''product'', KNum (Number s)]" and s = s]
  by (simp add: useProduct_def useQuery_def Let_def guard_inv_fetch del: hashKey_product)

lemma guard_inv_settle:
  assumes inv: "guard_inv c"
    and upd: "cache c (hashKey k) = Some q0" "fetchStatus q0 = Fetching"
  shows "guard_inv (c\<lparr>cache := (cache c)(hashKey k \<mapsto> q1)\<rparr>)"
proof (rule guard_invI)
  let ?c' = "c\<lparr>cache := (cache c)(hashKey k \<mapsto> q1)\<rparr>"
  have touched: "q0 \<noteq> initial_query" using upd(2) by auto
  show "\<exists>x. h = hashKey [KStr ''product'', KNum x] \<and> getProduct x \<in> set (calls ?c')"
    if "cache ?c' h = Some q" "q \<noteq> initial_query" for h q
  proof (cases "h = hashKey k")
    case True
    then show ?thesis
      using guard_inv_cache [OF inv upd(1) touched] by simp
  next
    case False
    then have "cache c h = Some q" using that(1) by simp
    then show ?thesis
      using guard_inv_cache [OF inv _ that(2)] by simp
  qed
  show "truthy x" if "getProduct x \<in> set (calls ?c')" for x
    using that guard_inv_calls [OF inv] by simp
  show "\<exists>t. ob = useProduct_options t" if "observer ?c' = Some ob" for ob
    using that guard_inv_observer [OF inv] by simp
qed

lemma guard_inv_resolve: "guard_inv c \<Longrightarrow> guard_inv (resolve k p c)"
  by (auto simp: resolve_def guard_inv_settle split: option.splits)

lemma guard_inv_reject: "guard_inv c \<Longrightarrow> guard_inv (reject k e c)"
  by (auto simp: reject_def guard_inv_settle split: option.splits)

lemma guard_inv_refetch: "guard_inv c \<Longrightarrow> guard_inv (refetch c)"
proof (cases "observer c")
  case None
  assume "guard_inv c"
  then show ?thesis using None by (simp add: refetch_def)
next
  case (Some ob)
  assume inv: "guard_inv c"
  then obtain s where "ob = useProduct_options s"
    using Some guard_inv_observer by blast
  then show ?thesis
    using inv Some guard_inv_fetch [OF inv, of s] by (simp add: refetch_def)
qed

lemma guard_inv_step: "guard_inv c \<Longrightarrow> guard_inv (step c ev)"
  by (cases ev)
     (simp_all add: guard_inv_useProduct guard_inv_resolve guard_inv_reject guard_inv_refetch)

lemma guard_inv_run: "guard_inv c \<Longrightarrow> guard_inv (run c evs)"
  by (induction evs arbitrary: c) (simp_all add: guard_inv_step)

lemma disabled_useProduct:
  assumes "\<not> truthy (Number s)"
  shows "calls (fst (useProduct s c)) = calls c"
    and "observer (fst (useProduct s c)) = Some (useProduct_options s)"
  using assms by (simp_all add: useProduct_def useQuery_def Let_def)

text \<open>
  A disabled query shows an untouched entry as long as no id whose key has the same hash
  has been requested.
\<close>

lemma guarded_result:
  assumes inv: "guard_inv c" and falsy: "\<not> truthy (Number s)"
    and apart: "\<And>x. getProduct x \<in> set (calls c) \<Longrightarrow> stringify (KNum x) \<noteq> stringify (KNum (Number s))"
  shows "snd (useProduct s c) = \<lparr>data = None, isLoading = False, error = None\<rparr>"
proof -
  let ?k = "[KStr ''product'', KNum (Number s)]"
  have "build ?k c = initial_query"
  proof (cases "cache c (hashKey ?k)")
    case None
    then show ?thesis by (simp add: build_def)
  next
    case (Some q)
    have "q = initial_query"
    proof (rule ccontr)
      assume "q \<noteq> initial_query"
      then obtain x where "hashKey ?k = hashKey [KStr ''product'', KNum x]"
        "getProduct x \<in> set (calls c)"
        using guard_inv_cache [OF inv Some] by blast
      then show False using apart [of x] by simp
    qed
    then show ?thesis using Some by (simp add: build_def)
  qed
  then show ?thesis
    using falsy
    by (simp add: useProduct_def useQuery_def Let_def build_subscribed result_of_def
        initial_query_def del: hashKey_product)
qed

lemma zero_apart:
  assumes "guard_inv c" "getProduct x \<in> set (calls c)"
  shows "stringify (KNum x) \<noteq> stringify (KNum (Fin 0))"
proof -
  have "truthy x" using assms by (rule guard_inv_calls)
  then show ?thesis by (cases x) auto
qed


subsection \<open>Events that leave the producer alone\<close>

lemma settlement_keeps:
  assumes "is_settlement ev"
  shows "dom (cache (step c ev)) = dom (cache c)"
    and "calls (step c ev) = calls c"
    and "observer (step c ev) = observer c"
  using assms
  by (cases ev; auto simp: resolve_def reject_def split: option.splits if_splits)+

lemma settlements_keep:
  assumes "\<forall>ev\<in>set evs. is_settlement ev"
  shows "dom (cache (run c evs)) = dom (cache c) \<and> calls (run c evs) = calls c
         \<and> observer (run c evs) = observer c"
  using assms by (induction evs arbitrary: c) (simp_all add: settlement_keeps)

lemma disabled_observer_step:
  assumes "observer c = Some ob" "\<not> enabled ob" "\<not> is_Render ev"
  shows "calls (step c ev) = calls c \<and> observer (step c ev) = Some ob"
  using assms
  by (cases ev) (auto simp: resolve_def reject_def refetch_def split: option.splits)

lemma disabled_observer_run:
  assumes "observer c = Some ob" "\<not> enabled ob" "\<forall>ev\<in>set evs. \<not> is_Render ev"
  shows "calls (run c evs) = calls c"
  using assms
proof (induction evs arbitrary: c)
  case Nil
  then show ?case by simp
next
  case (Cons ev evs)
  have "calls (step c ev) = calls c \<and> observer (step c ev) = Some ob"
    using Cons.prems by (intro disabled_observer_step) simp_all
  then show ?case using Cons by simp
qed

lemmas coordinator_defs =
  useProduct_def useQuery_def fetch_def build_def result_of_def fetchState_def
  resolve_def reject_def refetch_def initial_query_def init_client_def Let_def

section \<open>The hook and the page on the coordinator\<close>




text \<open>
  Claim C4. When the id derived from the route parameter is falsy, the hook call issues no
  producer call, from any state of the coordinator, and none follows for as long as the
  hook is not rendered with another parameter, whatever settles or triggers a refetch.
\<close>

theorem guard_no_producer_call:
  "\<not> truthy (Number productId) \<Longrightarrow> \<forall>ev\<in>set evs. \<not> is_Render ev \<Longrightarrow>
   calls (run (fst (useProduct productId c)) evs) = calls c"
  using disabled_observer_run [of "fst (useProduct productId c)" "useProduct_options productId" evs]
  by (simp add: disabled_useProduct)

theorem guard_no_producer_call_witness:
  "\<not> truthy (Number ''abc'')
   \<and> calls (run (fst (useProduct ''abc'' init_client))
        [Refetch, Resolve [KStr ''product'', KNum NaN] mockProduct]) = []"
  using guard_no_producer_call [of "''abc''" "[Refetch, Resolve [KStr ''product'', KNum NaN] mockProduct]" init_client]
  by (simp add: Number_abc init_client_def)




text \<open>
  Claim C10. Two parameter strings with the same numeric conversion give the hook the same
  behaviour in every state of the coordinator (same key, same producer, same result), and
  rendering with the one and then, after any settlements, with the other leaves one cache
  entry, that of \<^verbatim>\<open>['product', id]\<close>, and at most the one producer call of the first render.
\<close>

theorem same_number_same_query:
  "Number s = Number t \<Longrightarrow> \<forall>ev\<in>set evs. is_settlement ev \<Longrightarrow>
   useProduct s c = useProduct t c
   \<and> (let c' = run init_client (Render s # evs @ [Render t])
      in dom (cache c') = {hashKey [KStr ''product'', KNum (Number s)]}
         \<and> calls c' = (if truthy (Number s) then [getProduct (Number s)] else []))"
proof -
  assume eq: "Number s = Number t" and settle: "\<forall>ev\<in>set evs. is_settlement ev"
  have opts: "useProduct_options s = useProduct_options t"
    using eq by (simp add: useProduct_options_def)
  let ?h = "hashKey [KStr ''product'', KNum (Number s)]"
  let ?c1 = "step init_client (Render s)"
  let ?c2 = "run ?c1 evs"
  have c1: "dom (cache ?c1) = {?h}"
    "calls ?c1 = (if truthy (Number s) then [getProduct (Number s)] else [])"
    "observer ?c1 = Some (useProduct_options s)"
    by (simp_all add: useProduct_def useQuery_def fetch_def build_def init_client_def Let_def)
  have c2: "dom (cache ?c2) = {?h}"
    "calls ?c2 = (if truthy (Number s) then [getProduct (Number s)] else [])"
    "observer ?c2 = Some (useProduct_options s)"
    using settlements_keep [OF settle, of ?c1] c1 by simp_all
  have "dom (cache (step ?c2 (Render t))) = {?h} \<and> calls (step ?c2 (Render t)) = calls ?c2"
    using c2 opts [symmetric]
    by (auto simp: useProduct_def useQuery_def Let_def)
  then show ?thesis
    using opts c2 by (simp add: useProduct_def Let_def)
qed

theorem same_number_same_query_witness:
  "Number ''1'' = Number ''01'' \<and> Number ''1.0'' = Number ''01''
   \<and> useProduct ''1'' init_client = useProduct ''01'' init_client
   \<and> dom (cache (run init_client
          [Render ''1'', Resolve [KStr ''product'', KNum (Fin 1)] mockProduct, Render ''01'']))
       = {hashKey [KStr ''product'', KNum (Fin 1)]}
   \<and> calls (run init_client
          [Render ''1'', Resolve [KStr ''product'', KNum (Fin 1)] mockProduct, Render ''01''])
       = [getProduct (Fin 1)]"
  using same_number_same_query [of "''1''" "''01''" "[Resolve [KStr ''product'', KNum (Fin 1)] mockProduct]" init_client]
  by (simp add: Number_1 Number_01 Number_1_0 coordinator_defs)

text \<open>
  Claim C3. When the fetch of the hook's query is in flight and the producer rejects with
  an error \<open>e\<close>, the hook's error field is exactly \<open>e\<close> and the page shows the paragraph
  \<^verbatim>\<open>Error loading product: \<close> followed by the message of \<open>e\<close>.
\<close>

theorem rejection_surfaces_unchanged:
  "observer c = Some (useProduct_options productId) \<Longrightarrow>
   cache c (hashKey [KStr ''product'', KNum (Number productId)]) = Some q \<Longrightarrow>
   fetchStatus q = Fetching \<Longrightarrow>
   (let r = snd (useProduct productId (reject [KStr ''product'', KNum (Number productId)] e c))
    in error r = Some e
       \<and> Para (''Error loading product: '' @ message e) \<in> set (ProductPage r))"
  by (simp add: useProduct_def useQuery_def reject_def build_def result_of_def ProductPage_def Let_def)

theorem rejection_surfaces_unchanged_witness:
  "observer (fst (useProduct ''1'' init_client)) = Some (useProduct_options ''1'')
   \<and> error (snd (useProduct ''1'' (reject [KStr ''product'', KNum (Fin 1)]
        \<lparr>message = ''Failed to fetch product''\<rparr> (fst (useProduct ''1'' init_client)))))
       = Some \<lparr>message = ''Failed to fetch product''\<rparr>
   \<and> Para ''Error loading product: Failed to fetch product''
       \<in> set (ProductPage (snd (useProduct ''1'' (reject [KStr ''product'', KNum (Fin 1)]
            \<lparr>message = ''Failed to fetch product''\<rparr> (fst (useProduct ''1'' init_client))))))"
  using rejection_surfaces_unchanged [of "fst (useProduct ''1'' init_client)" "''1''"
      "fetchState initial_query" "\<lparr>message = ''Failed to fetch product''\<rparr>"]
  by (simp add: Number_1 coordinator_defs)

text \<open>
  Claim C1, amended. In every state reached by a route activation the page renders, in
  this order and nothing else: while the hook is loading, the loading indicator alone; when
  it is not loading and has neither error nor data, nothing; with an error and no data, the
  error message alone; with data and no error, the product detail alone; with an error and
  earlier data, the error message followed by the product detail. For a parameter whose
  conversion is 0 the page always renders nothing.
\<close>

theorem page_visibility:
  "(let r = snd (useProduct productId (run init_client evs))
    in (isLoading r \<longrightarrow> ProductPage r = [Para ''Loading product...''])
       \<and> (\<not> isLoading r \<and> error r = None \<and> data r = None \<longrightarrow> ProductPage r = [])
       \<and> (\<forall>e. \<not> isLoading r \<and> error r = Some e \<and> data r = None \<longrightarrow>
              ProductPage r = [Para (''Error loading product: '' @ message e)])
       \<and> (\<forall>p. \<not> isLoading r \<and> error r = None \<and> data r = Some p \<longrightarrow>
              ProductPage r = [Detail (ProductDetail r)])
       \<and> (\<forall>e p. \<not> isLoading r \<and> error r = Some e \<and> data r = Some p \<longrightarrow>
              ProductPage r =
                [Para (''Error loading product: '' @ message e), Detail (ProductDetail r)])
       \<and> (Number productId = Fin 0 \<longrightarrow> ProductPage r = []))"
proof -
  let ?c = "run init_client evs"
  have ok: "cache_ok ?c" by (simp add: cache_ok_run cache_ok_init)
  have inv: "guard_inv ?c" by (simp add: guard_inv_run guard_inv_init)
  obtain q where q: "query_ok q" "snd (useProduct productId ?c) = result_of q"
    using useProduct_result_ok [OF ok] by blast
  have alone: "isLoading (result_of q) \<longrightarrow> data (result_of q) = None \<and> error (result_of q) = None"
    using loading_alone [OF q(1)] by blast
  have zero: "Number productId = Fin 0 \<longrightarrow> ProductPage (snd (useProduct productId ?c)) = []"
  proof
    assume z: "Number productId = Fin 0"
    then have "snd (useProduct productId ?c) = \<lparr>data = None, isLoading = False, error = None\<rparr>"
      using guarded_result [OF inv, of productId] zero_apart [OF inv] by simp
    then show "ProductPage (snd (useProduct productId ?c)) = []"
      by (simp add: ProductPage_def)
  qed
  show ?thesis
    using alone zero unfolding Let_def q(2) by (auto simp: ProductPage_def)
qed

theorem page_visibility_witness:
  "isLoading (snd (useProduct ''1'' (run init_client [])))
   \<and> ProductPage (snd (useProduct ''1'' (run init_client []))) = [Para ''Loading product...'']
   \<and> Number ''0'' = Fin 0
   \<and> ProductPage (snd (useProduct ''0'' (run init_client []))) = []
   \<and> ProductPage (snd (useProduct ''1'' (run init_client
        [Render ''1'', Resolve [KStr ''product'', KNum (Fin 1)] mockProduct])))
       = [Detail (ProductDetail \<lparr>data = Some mockProduct, isLoading = False, error = None\<rparr>)]
   \<and> ProductPage (snd (useProduct ''1'' (run init_client
        [Render ''1'', Reject [KStr ''product'', KNum (Fin 1)] \<lparr>message = ''Failed to fetch product''\<rparr>])))
       = [Para ''Error loading product: Failed to fetch product'']"
  using page_visibility [of "''1''" "[]"] page_visibility [of "''0''" "[]"]
    page_visibility [of "''1''" "[Render ''1'', Resolve [KStr ''product'', KNum (Fin 1)] mockProduct]"]
    page_visibility [of "''1''" "[Render ''1'', Reject [KStr ''product'', KNum (Fin 1)] \<lparr>message = ''Failed to fetch product''\<rparr>]"]
  by (simp add: Number_0 Number_1 coordinator_defs ProductPage_def)

text \<open>
  Claim C1, as stated, fails twice. With the parameter \<^verbatim>\<open>"0"\<close> the query is disabled and the
  page renders none of the three; and when product 1 has resolved and a refetch then fails,
  the page renders the error message together with the product detail.
\<close>

theorem page_not_exactly_one:
  "ProductPage (snd (useProduct ''0'' init_client)) = []
   \<and> ProductPage (snd (useProduct ''1'' (run init_client
        [Render ''1'', Resolve [KStr ''product'', KNum (Fin 1)] mockProduct, Refetch,
         Reject [KStr ''product'', KNum (Fin 1)] \<lparr>message = ''Failed to fetch product''\<rparr>])))
       = [Para ''Error loading product: Failed to fetch product'',
          Detail (ProductDetail \<lparr>data = Some mockProduct, isLoading = False,
                                  error = Some \<lparr>message = ''Failed to fetch product''\<rparr>\<rparr>)]"
  by (simp add: Number_0 Number_1 coordinator_defs ProductPage_def)

section \<open>The panels\<close>

text \<open>
  Claim C9. When the hook's data is undefined the info panel still renders: the title and
  description slots are empty and the price slot holds only the dollar sign.
\<close>

theorem ProductInfo_without_product:
  "data r = None \<Longrightarrow>
   ProductInfo r = \<lparr>title_slot = [], price_slot = ''$'', description_slot = []\<rparr>"
  by (simp add: ProductInfo_def text_of_def Let_def)

theorem ProductInfo_without_product_witness:
  "data (snd (useProduct ''1'' init_client)) = None
   \<and> ProductInfo (snd (useProduct ''1'' init_client))
       = \<lparr>title_slot = [], price_slot = ''$'', description_slot = []\<rparr>"
proof -
  have h: "data (snd (useProduct ''1'' init_client)) = None"
    by (simp add: Number_1 useProduct_def useQuery_def fetch_def build_def result_of_def
        fetchState_def initial_query_def init_client_def Let_def)
  show ?thesis using h ProductInfo_without_product [OF h] by simp
qed

text \<open>
  Claim C7. For a resolved product the image panel shows \<^verbatim>\<open>thumbnail\<close> when \<^verbatim>\<open>images\<close> is
  empty and \<^verbatim>\<open>images[0]\<close> otherwise.
\<close>

theorem ProductImage_source:
  "data r = Some p \<Longrightarrow>
   ProductImage_src r = Some (if images p = [] then thumbnail p else images p ! 0)"
  by (simp add: ProductImage_src_def split: list.splits)

theorem ProductImage_source_witness:
  "ProductImage_src \<lparr>data = Some (mockProduct\<lparr>images := []\<rparr>), isLoading = False, error = None\<rparr>
     = Some ''https://example.com/thumbnail.jpg''
   \<and> ProductImage_src \<lparr>data = Some mockProduct, isLoading = False, error = None\<rparr>
     = Some ''https://example.com/image1.jpg''"
  using ProductImage_source [of "\<lparr>data = Some (mockProduct\<lparr>images := []\<rparr>), isLoading = False, error = None\<rparr>" "mockProduct\<lparr>images := []\<rparr>"]
    ProductImage_source [of "\<lparr>data = Some mockProduct, isLoading = False, error = None\<rparr>" mockProduct]
  by (simp add: mockProduct_def)

section \<open>The price in the info panel\<close>

lemma digit_char_of: "d < 10 \<Longrightarrow> (of_char (digit_char d) :: nat) = 48 + d"
  by (simp add: digit_char_def)

lemma digit_char_is_digit: "d < 10 \<Longrightarrow> is_digit_in 10 (digit_char d)"
  by (simp add: is_digit_in_10 digit_char_of)

lemma digits_nonempty [simp]: "digits n \<noteq> []"
  by (subst digits.simps) simp

lemma digits_all: "list_all (is_digit_in 10) (digits n)"
proof (induction n rule: digits.induct)
  case (1 n)
  show ?case
  proof (cases "n < 10")
    case True
    then show ?thesis by (subst digits.simps) (simp add: digit_char_is_digit)
  next
    case False
    then show ?thesis
      using "1.IH" by (subst digits.simps) (simp add: digit_char_is_digit)
  qed
qed

lemma all_digits_digits: "all_digits (digits n)"
  by (simp add: all_digits_def digits_all)

lemma digits_small: "n < 10 \<Longrightarrow> digits n = [digit_char n]"
  by (subst digits.simps) simp

lemma digits_step: "10 \<le> n \<Longrightarrow> digits n = digits (n div 10) @ [digit_char (n mod 10)]"
  by (subst digits.simps) simp

lemma digit_char_0: "digit_char 0 = CHR ''0''"
proof -
  have "(of_char (digit_char 0) :: nat) = of_char CHR ''0''"
    by (simp add: digit_char_of)
  then show ?thesis by (simp only: of_char_eq_iff)
qed

lemma digits_0: "digits 0 = ''0''"
  by (simp add: digits_small digit_char_0)

lemma two_places:
  "(let m = digits n;
        z = (if length m \<le> 2 then replicate (2 + 1 - length m) CHR ''0'' @ m else m)
    in take (length z - 2) z @ ''.'' @ drop (length z - 2) z)
   = digits (n div 100) @ ''.'' @ [digit_char (n mod 100 div 10), digit_char (n mod 10)]"
proof -
  consider "n < 10" | "10 \<le> n" "n < 100" | "100 \<le> n" by linarith
  then show ?thesis
  proof cases
    case 1
    then show ?thesis by (simp add: digits_small digits_0 digit_char_0)
  next
    case 2
    then have "digits n = [digit_char (n div 10), digit_char (n mod 10)]"
      by (simp add: digits_step digits_small)
    then show ?thesis using 2 by (simp add: digits_0)
  next
    case 3
    have "n mod 100 = 10 * (n div 10 mod 10) + n mod 10"
      using mod_mult2_eq [of n 10 10] by simp
    then have a: "n div 10 div 10 = n div 100" "n div 10 mod 10 = n mod 100 div 10"
      by (simp_all add: div_mult2_eq)
    have d: "digits n = digits (n div 100) @ [digit_char (n mod 100 div 10), digit_char (n mod 10)]"
      using 3 by (simp add: digits_step [of n] digits_step [of "n div 10"] a)
    have "2 < length (digits n)"
      using d digits_nonempty [of "n div 100"] by (cases "digits (n div 100)") simp_all
    then show ?thesis by (simp add: d Let_def)
  qed
qed

lemma toFixed_2_finite:
  assumes "\<bar>q\<bar> < 10 ^ 21"
  shows "toFixed 2 (Fin q) =
         (if q < 0 then ''-'' else []) @ digits (nat \<lfloor>\<bar>q\<bar> * 100 + 1 / 2\<rfloor> div 100) @ ''.''
         @ [digit_char (nat \<lfloor>\<bar>q\<bar> * 100 + 1 / 2\<rfloor> mod 100 div 10),
            digit_char (nat \<lfloor>\<bar>q\<bar> * 100 + 1 / 2\<rfloor> mod 10)]"
  using assms two_places [of "nat \<lfloor>\<bar>q\<bar> * 100 + 1 / 2\<rfloor>"]
  by (simp add: toFixed_def Let_def)

lemma nearest_cent: "\<bar>of_nat (nat \<lfloor>\<bar>q\<bar> * 100 + 1 / 2\<rfloor>) / 100 - \<bar>q\<bar>\<bar> \<le> (1 / 200 :: rat)"
proof -
  define x where "x = \<bar>q\<bar> * 100 + 1 / 2"
  have "0 \<le> x" by (simp add: x_def)
  then have "0 \<le> \<lfloor>x\<rfloor>" by simp
  then have n: "(of_nat (nat \<lfloor>x\<rfloor>) :: rat) = of_int \<lfloor>x\<rfloor>" by simp
  have fl: "of_int \<lfloor>x\<rfloor> \<le> x" "x < of_int \<lfloor>x\<rfloor> + 1"
    by linarith+
  have "of_int \<lfloor>x\<rfloor> - \<bar>q\<bar> * 100 \<le> 1 / 2" "- (1 / 2) \<le> of_int \<lfloor>x\<rfloor> - \<bar>q\<bar> * 100"
    using fl unfolding x_def by linarith+
  then have "\<bar>of_int \<lfloor>x\<rfloor> - \<bar>q\<bar> * 100\<bar> \<le> (1 / 2 :: rat)"
    by (simp only: abs_le_iff) simp
  then have "\<bar>(of_int \<lfloor>x\<rfloor> - \<bar>q\<bar> * 100) / 100\<bar> \<le> (1 / 2 :: rat) / 100"
    by (simp only: abs_divide) (simp add: divide_le_cancel)
  then show ?thesis
    unfolding n x_def [symmetric] by (simp add: diff_divide_distrib x_def)
qed


lemma digit_char_eval:
  "digit_char 0 = CHR ''0''" "digit_char 1 = CHR ''1''" "digit_char 2 = CHR ''2''"
  "digit_char 3 = CHR ''3''" "digit_char 4 = CHR ''4''" "digit_char 5 = CHR ''5''"
  "digit_char 6 = CHR ''6''" "digit_char 7 = CHR ''7''" "digit_char 8 = CHR ''8''"
  "digit_char 9 = CHR ''9''"
  by (simp_all add: digit_char_def char_of_eq_iff)

text \<open>
  Claim C5, amended. For every product whose price is finite and below \<open>10 ^ 21\<close> in
  magnitude, the info panel shows the title and the description verbatim, and in the price
  slot the dollar sign, a minus sign for a negative price, the decimal digits of
  \<open>n div 100\<close>, a point and the two digits of \<open>n mod 100\<close>, where \<open>n\<close> is the number of
  hundredths nearest to the magnitude of the price (the larger of two).
\<close>

theorem ProductInfo_shows_product:
  "data r = Some p \<Longrightarrow> price p = Fin q \<Longrightarrow> \<bar>q\<bar> < 10 ^ 21 \<Longrightarrow>
   (let n = nat \<lfloor>\<bar>q\<bar> * 100 + 1 / 2\<rfloor>
    in ProductInfo r =
         \<lparr>title_slot = title p,
          price_slot = ''$'' @ (if q < 0 then ''-'' else []) @ digits (n div 100) @ ''.''
                       @ [digit_char (n mod 100 div 10), digit_char (n mod 10)],
          description_slot = description p\<rparr>
       \<and> all_digits (digits (n div 100))
       \<and> all_digits [digit_char (n mod 100 div 10), digit_char (n mod 10)]
       \<and> \<bar>of_nat n / 100 - \<bar>q\<bar>\<bar> \<le> 1 / 200)"
  using toFixed_2_finite [of q] nearest_cent [of q] all_digits_digits
  by (simp add: ProductInfo_def text_of_def Let_def all_digits_def digit_char_is_digit)

lemma mock_price: "to_double (9999 / 100) = Fin (7036170730324623 / 70368744177664)"
  by code_simp

lemma mock_cents: "nat \<lfloor>\<bar>7036170730324623 / 70368744177664 :: rat\<bar> * 100 + 1 / 2\<rfloor> = 9999"
  by code_simp

lemma digits_99: "digits 99 = ''99''"
  by (simp add: digits.simps digit_char_eval)

theorem ProductInfo_shows_product_witness:
  "price mockProduct = Fin (7036170730324623 / 70368744177664)
   \<and> \<bar>7036170730324623 / 70368744177664 :: rat\<bar> < 10 ^ 21
   \<and> ProductInfo \<lparr>data = Some mockProduct, isLoading = False, error = None\<rparr>
       = \<lparr>title_slot = ''Test Product'', price_slot = ''$99.99'',
          description_slot = ''This is a test product description''\<rparr>"
proof -
  have p: "price mockProduct = Fin (7036170730324623 / 70368744177664)"
    by (simp add: mockProduct_def mock_price)
  have b: "\<bar>7036170730324623 / 70368744177664 :: rat\<bar> < 10 ^ 21"
    by simp
  have d: "data \<lparr>data = Some mockProduct, isLoading = False, error = None\<rparr> = Some mockProduct"
    by simp
  note shown = ProductInfo_shows_product [OF d p b, unfolded Let_def mock_cents]
  show ?thesis
    using p b shown by (simp add: digits_99 digit_char_eval) (simp add: mockProduct_def)
qed

lemma double_1e21: "to_double 1000000000000000000000 = Fin 1000000000000000000000"
proof -
  have "to_double (of_nat (476837158203125 * 2 ^ 21)) = Fin (of_nat (476837158203125 * 2 ^ 21))"
    by (rule to_double_exact) simp_all
  then show ?thesis by simp
qed

lemma double_2e21: "to_double 2000000000000000000000 = Fin 2000000000000000000000"
proof -
  have "to_double (of_nat (476837158203125 * 2 ^ 22)) = Fin (of_nat (476837158203125 * 2 ^ 22))"
    by (rule to_double_exact) simp_all
  then show ?thesis by simp
qed

lemma double_1e22: "to_double 10000000000000000000000 = Fin 10000000000000000000000"
proof -
  have "to_double (of_nat (2384185791015625 * 2 ^ 22)) = Fin (of_nat (2384185791015625 * 2 ^ 22))"
    by (rule to_double_exact) simp_all
  then show ?thesis by simp
qed

lemma digits_1e21: "length (digits 1000000000000000000000) = 22"
  by (simp add: digits.simps)

lemma floor_tenth: "\<lfloor>1 / 10 :: rat\<rfloor> = 0"
  by (rule floor_unique) simp_all

lemma candidates_1e21: "shortest_candidates 1000000000000000000000 (Suc 0) = [(22, Suc 0)]"
  by (simp add: shortest_candidates_def Let_def digits_1e21 floor_tenth
      double_1e21 double_2e21 double_1e22)

lemma digit_char_Suc_0: "digit_char (Suc 0) = CHR ''1''"
  using digit_char_eval(2) by simp

lemma toString_1e21: "toString_exp 1000000000000000000000 = ''1e+21''"
  by (simp add: toString_exp_def upt_conv_Cons candidates_1e21 digits.simps
      digit_char_eval digit_char_Suc_0)

text \<open>
  Claim C5, as stated, fails for a price of \<open>10 ^ 21\<close>: \<^verbatim>\<open>toFixed\<close> then prints as
  \<^verbatim>\<open>toString\<close> does, and the price slot reads \<^verbatim>\<open>$1e+21\<close>, with no decimal places.
\<close>

theorem price_without_decimals:
  "price_slot (ProductInfo \<lparr>data = Some (mockProduct\<lparr>price := Fin (10 ^ 21)\<rparr>),
                            isLoading = False, error = None\<rparr>) = ''$1e+21''"
  by (simp add: ProductInfo_def text_of_def toFixed_def toString_1e21)


end
